theory Spec2Isabelle
  imports Main "HOL-Library.Multiset"
begin

section \<open>Strings and paths\<close>

text \<open>
  File names and paths are Python \<open>str\<close> values, modelled as \<open>string\<close>: a list of
  characters with code points below 256. Among those the decimal digits that the regular
  expression class \<open>\d\<close> accepts are exactly \<open>0\<close> to \<open>9\<close>.
\<close>

definition startswith :: "string \<Rightarrow> string \<Rightarrow> bool" where
  "startswith s p = (take (length p) s = p)"

definition endswith :: "string \<Rightarrow> string \<Rightarrow> bool" where
  "endswith s p = (length p \<le> length s \<and> drop (length s - length p) s = p)"

definition sep :: char where
  "sep = CHR ''/''"

text \<open>\<open>posixpath.join\<close> with two arguments; \<open>os.path.join(a, b, c)\<close> is the join of
  \<open>os.path.join(a, b)\<close> with \<open>c\<close>.\<close>

definition os_path_join :: "string \<Rightarrow> string \<Rightarrow> string" where
  "os_path_join a b =
     (if startswith b [sep] then b
      else if a = [] \<or> endswith a [sep] then a @ b
      else a @ [sep] @ b)"

text \<open>\<open>posixpath.basename\<close>: what follows the last separator.\<close>

definition os_path_basename :: "string \<Rightarrow> string" where
  "os_path_basename p = rev (takeWhile (\<lambda>c. c \<noteq> sep) (rev p))"

text \<open>The base name that \<open>shutil.move\<close> takes of its source: \<open>os.path.basename\<close> of
  the path without its trailing separators.\<close>

definition rstrip_sep :: "string \<Rightarrow> string" where
  "rstrip_sep p = rev (dropWhile (\<lambda>c. c = sep) (rev p))"

definition shutil_basename :: "string \<Rightarrow> string" where
  "shutil_basename p = os_path_basename (rstrip_sep p)"

text \<open>\<open>posixpath.dirname\<close>: the part up to the last separator, with trailing separators
  stripped unless it consists of separators only.\<close>

definition os_path_dirname :: "string \<Rightarrow> string" where
  "os_path_dirname p =
     (let head = rev (dropWhile (\<lambda>c. c \<noteq> sep) (rev p))
      in if head \<noteq> [] \<and> \<not> list_all (\<lambda>c. c = sep) head
         then rev (dropWhile (\<lambda>c. c = sep) (rev head)) else head)"

section \<open>The file-name pattern\<close>

text \<open>
  \<^verbatim>\<open>re.match(r'(.+?)_(\d{4})\.jpg_vis_results\.jpg', file)\<close>

  \<open>re.match\<close> anchors the pattern at the start of the name only. The first group is lazy:
  it takes one character (any but a newline) and then as few more as possible, trying the
  rest of the pattern after each.
\<close>

definition isdigit :: "char \<Rightarrow> bool" where
  "isdigit c = (c \<in> set ''0123456789'')"

definition digit_value :: "char \<Rightarrow> nat" where
  "digit_value c = length (takeWhile (\<lambda>d. d \<noteq> c) ''0123456789'')"

text \<open>Python's \<open>int\<close> on a string of decimal digits.\<close>

definition int_of_digits :: "string \<Rightarrow> nat" where
  "int_of_digits ds = foldl (\<lambda>a c. 10 * a + digit_value c) 0 ds"

text \<open>The rest of the pattern after the first group, matched at the start of \<open>s\<close>:
  \<^verbatim>\<open>_(\d{4})\.jpg_vis_results\.jpg\<close>. The result is the text of the second group.\<close>

definition match_tail :: "string \<Rightarrow> string option" where
  "match_tail s =
     (if startswith s ''_'' \<and> length (take 4 (drop 1 s)) = 4
         \<and> list_all isdigit (take 4 (drop 1 s))
         \<and> startswith (drop 5 s) ''.jpg_vis_results.jpg''
      then Some (take 4 (drop 1 s)) else None)"

definition newline :: char where
  "newline = CHR 0x0A"

fun lazy_group :: "string \<Rightarrow> string \<Rightarrow> (string \<times> string) option" where
  "lazy_group acc [] = None"
| "lazy_group acc (c # cs) =
     (case match_tail (c # cs) of
        Some d \<Rightarrow> Some (acc, d)
      | None \<Rightarrow> (if c = newline then None else lazy_group (acc @ [c]) cs))"

definition re_match :: "string \<Rightarrow> (string \<times> string) option" where
  "re_match file =
     (case file of
        [] \<Rightarrow> None
      | c # cs \<Rightarrow> (if c = newline then None else lazy_group [c] cs))"

section \<open>Grouping and category assignment\<close>

definition jpg_files :: "string list \<Rightarrow> string list" where
  "jpg_files listing = filter (\<lambda>f. endswith f ''.jpg'') listing"

text \<open>\<open>groups\<close> is a \<open>defaultdict(list)\<close>: keys keep their insertion order, and
  \<open>groups[prefix].append(v)\<close> adds to the end of the key's list, creating it when absent.\<close>

type_synonym groups = "(string \<times> (nat \<times> string) list) list"

fun groups_append :: "string \<Rightarrow> nat \<times> string \<Rightarrow> groups \<Rightarrow> groups" where
  "groups_append k v [] = [(k, [v])]"
| "groups_append k v ((k', vs) # g) =
     (if k = k' then (k', vs @ [v]) # g else (k', vs) # groups_append k v g)"

fun group_files :: "string list \<Rightarrow> groups \<Rightarrow> groups" where
  "group_files [] groups = groups"
| "group_files (file # files) groups =
     (case re_match file of
        Some (prefix, number) \<Rightarrow>
          group_files files (groups_append prefix (int_of_digits number, file) groups)
      | None \<Rightarrow> group_files files groups)"

definition categories :: "string list" where
  "categories =
     [''0.Address'', ''1.Toe-up'', ''2.Mid-backswing'', ''3.Top'',
      ''4.Mid-downswing'', ''5.Impact'', ''6.Mid-follow-through'', ''7.Finish'']"

text \<open>\<open>sorted(files, key=lambda x: x[0])\<close> is a stable sort on the frame number, as
  \<open>sort_key fst\<close> is.\<close>

definition sorted_files :: "(nat \<times> string) list \<Rightarrow> (nat \<times> string) list" where
  "sorted_files files = sort_key fst files"

section \<open>The file system and the output stream\<close>

text \<open>
  The file system maps a path, identified by its spelling, to what is there: a regular
  file (with a number standing for its content) or a directory. A directory is its own
  node; what lies below it is stored under the longer paths. \<open>out\<close> holds the printed
  lines, \<open>pbar\<close> the count of the total progress bar.
\<close>

datatype node = File nat | Dir

record world =
  fs :: "string \<rightharpoonup> node"
  out :: "string list"
  pbar :: nat

datatype error =
  FileNotFoundError | NotADirectoryError | IsADirectoryError | FileExistsError | ShutilError

text \<open>An exception leaves the file system as it is at that moment, so both outcomes carry
  the world.\<close>

datatype outcome = Done world | Raised error world


definition print :: "string \<Rightarrow> world \<Rightarrow> world" where
  "print line w = w\<lparr>out := out w @ [line]\<rparr>"

definition os_path_exists :: "world \<Rightarrow> string \<Rightarrow> bool" where
  "os_path_exists w p = (fs w p \<noteq> None)"

definition os_path_isdir :: "world \<Rightarrow> string \<Rightarrow> bool" where
  "os_path_isdir w p = (fs w p = Some Dir)"

text \<open>\<open>os.makedirs(p)\<close> creates the directory \<open>p\<close> (with the missing directories above it,
  which the model does not record) and raises when \<open>p\<close> is already there.\<close>

definition os_makedirs :: "string \<Rightarrow> world \<Rightarrow> outcome" where
  "os_makedirs p w =
     (if os_path_exists w p then Raised FileExistsError w
      else Done (w\<lparr>fs := (fs w)(p \<mapsto> Dir)\<rparr>))"

text \<open>\<open>os.rename(src, dst)\<close> on POSIX: the source must exist; renaming a path onto
  itself changes nothing; the directory holding the destination must be a directory (a path
  without a separator lies in the current directory); a regular file replaces a regular
  file at the destination, while a directory does not. \<open>shutil.move\<close> hands over a
  destination that is a directory only when it is the source itself, so a directory in the
  way is an error here (POSIX lets a directory replace an empty directory, which the sorter
  never asks for). The rename carries the node at the source; the paths below a renamed
  directory are not followed, and the results below that speak of moved files take them to
  be regular files.\<close>

definition os_rename :: "string \<Rightarrow> string \<Rightarrow> world \<Rightarrow> outcome" where
  "os_rename src dst w =
     (case fs w src of
        None \<Rightarrow> Raised FileNotFoundError w
      | Some n \<Rightarrow>
          (if src = dst then Done w
           else if os_path_dirname dst \<noteq> [] \<and> \<not> os_path_exists w (os_path_dirname dst)
             then Raised FileNotFoundError w
           else if os_path_dirname dst \<noteq> [] \<and> \<not> os_path_isdir w (os_path_dirname dst)
             then Raised NotADirectoryError w
           else if os_path_isdir w dst
             then Raised IsADirectoryError w
           else if n = Dir \<and> os_path_exists w dst
             then Raised NotADirectoryError w
           else Done (w\<lparr>fs := ((fs w)(src := None))(dst \<mapsto> n)\<rparr>)))"

text \<open>\<open>shutil.move(src, dst)\<close>: when the destination is an existing directory other than
  the source itself, the source goes inside it under its own base name, and it is an error
  if that path exists; otherwise the source is renamed to the destination.\<close>

definition shutil_move :: "string \<Rightarrow> string \<Rightarrow> world \<Rightarrow> outcome" where
  "shutil_move src dst w =
     (if os_path_isdir w dst then
        (if src = dst then os_rename src dst w
         else if os_path_exists w (os_path_join dst (shutil_basename src))
           then Raised ShutilError w
         else os_rename src (os_path_join dst (shutil_basename src)) w)
      else os_rename src dst w)"

section \<open>The swing-phase sorter\<close>

text \<open>Python's \<open>str\<close> of a natural number, for the formatted messages.\<close>

function str_nat :: "nat \<Rightarrow> string" where
  "str_nat n =
     (if n < 10 then [''0123456789'' ! n]
      else str_nat (n div 10) @ [''0123456789'' ! (n mod 10)])"
  by pat_completeness auto
termination
  by (relation "measure id") auto

declare str_nat.simps [simp del]

text \<open>The loop that creates the category folders.\<close>

fun make_category_dirs :: "string \<Rightarrow> string list \<Rightarrow> world \<Rightarrow> outcome" where
  "make_category_dirs target_dir [] w = Done w"
| "make_category_dirs target_dir (category # rest) w =
     (let category_dir = os_path_join target_dir category in
      if \<not> os_path_exists w category_dir then
        (case os_makedirs category_dir w of
           Raised e w' \<Rightarrow> Raised e w'
         | Done w' \<Rightarrow> make_category_dirs target_dir rest w')
      else make_category_dirs target_dir rest w)"

text \<open>The inner loop \<open>for i, (number, filename) in enumerate(sorted_files)\<close>, entered at
  index \<open>i\<close> with the members still to come.\<close>

fun move_files ::
  "string \<Rightarrow> string \<Rightarrow> string \<Rightarrow> nat \<Rightarrow> (nat \<times> string) list \<Rightarrow> world \<Rightarrow> outcome" where
  "move_files source_dir target_dir prefix i [] w = Done w"
| "move_files source_dir target_dir prefix i ((number, filename) # rest) w =
     (if i \<ge> length categories then
        Done (print (''Warning: More frames than categories for '' @ prefix
                      @ '', skipping extra frames'') w)
      else
        (let src_path = os_path_join source_dir filename;
             dst_path = os_path_join (os_path_join target_dir (categories ! i)) filename
         in case shutil_move src_path dst_path w of
              Raised e w' \<Rightarrow> Raised e w'
            | Done w' \<Rightarrow>
                move_files source_dir target_dir prefix (Suc i) rest
                  (print (''Moved '' @ filename @ '' to '' @ categories ! i) w')))"

text \<open>The loop over \<open>groups.items()\<close>.\<close>

fun process_groups :: "string \<Rightarrow> string \<Rightarrow> groups \<Rightarrow> world \<Rightarrow> outcome" where
  "process_groups source_dir target_dir [] w = Done w"
| "process_groups source_dir target_dir ((prefix, files) # rest) w =
     (let w1 = (if length (sorted_files files) \<noteq> 8
                then print (''Note: Group '' @ prefix @ '' has ''
                             @ str_nat (length (sorted_files files)) @ '' frames'') w
                else w)
      in case move_files source_dir target_dir prefix 0 (sorted_files files) w1 of
           Raised e w' \<Rightarrow> Raised e w'
         | Done w' \<Rightarrow> process_groups source_dir target_dir rest w')"

text \<open>\<open>sort_golf_swing_images(source_dir, target_dir)\<close>. \<open>listing\<close> is the list that
  \<open>os.listdir(source_dir)\<close> returns: the names in the source directory, in the order the
  operating system gives them.\<close>

definition sort_golf_swing_images ::
  "string list \<Rightarrow> string \<Rightarrow> string \<Rightarrow> world \<Rightarrow> outcome" where
  "sort_golf_swing_images listing source_dir target_dir w =
     (let groups = group_files (jpg_files listing) [] in
      case make_category_dirs target_dir categories w of
        Raised e w' \<Rightarrow> Raised e w'
      | Done w' \<Rightarrow> process_groups source_dir target_dir groups w')"

text \<open>
  What the two loops over the groups do to the files, without the effects: the member at
  position \<open>i\<close> of a sorted group goes to category \<open>i\<close>, and \<open>zip\<close> stops after the last
  category as the \<open>break\<close> does.
\<close>

definition assign :: "(nat \<times> string) list \<Rightarrow> (string \<times> nat) list" where
  "assign files = zip (map snd (sorted_files files)) [0..<length categories]"

definition plan_of :: "groups \<Rightarrow> (string \<times> nat) list" where
  "plan_of gs = concat (map (\<lambda>g. assign (snd g)) gs)"

definition plan :: "string list \<Rightarrow> (string \<times> nat) list" where
  "plan listing = plan_of (group_files (jpg_files listing) [])"

abbreviation src_path :: "string \<Rightarrow> string \<Rightarrow> string" where
  "src_path source_dir filename \<equiv> os_path_join source_dir filename"

abbreviation dst_path :: "string \<Rightarrow> nat \<Rightarrow> string \<Rightarrow> string" where
  "dst_path target_dir i filename \<equiv>
     os_path_join (os_path_join target_dir (categories ! i)) filename"

text \<open>The effect on the file system of renaming each planned file in turn.\<close>

fun apply_plan ::
  "string \<Rightarrow> string \<Rightarrow> (string \<times> nat) list \<Rightarrow> (string \<rightharpoonup> node) \<Rightarrow> (string \<rightharpoonup> node)" where
  "apply_plan s t [] m = m"
| "apply_plan s t ((f, k) # pl) m =
     apply_plan s t pl ((m(src_path s f := None))(dst_path t k f := m (src_path s f)))"


text \<open>What \<open>os.listdir\<close> guarantees of its result: no name twice, no separator in a
  name.\<close>

definition listdir_result :: "string list \<Rightarrow> bool" where
  "listdir_result listing = (distinct listing \<and> list_all (\<lambda>f. sep \<notin> set f) listing)"

definition is_file :: "world \<Rightarrow> string \<Rightarrow> bool" where
  "is_file w p = (case fs w p of Some (File c) \<Rightarrow> True | _ \<Rightarrow> False)"

text \<open>The names the sorter groups: those ending in \<open>.jpg\<close> on which \<open>re.match\<close>
  succeeds.\<close>

definition grouped :: "string list \<Rightarrow> string list" where
  "grouped listing = filter (\<lambda>f. re_match f \<noteq> None) (jpg_files listing)"

text \<open>
  The state of the directories in which every move of a run goes through: each grouped
  name is a regular file in the source directory, no regular file sits where a category
  folder belongs, and no directory sits where a file is to land.
\<close>

definition ready :: "string list \<Rightarrow> string \<Rightarrow> string \<Rightarrow> world \<Rightarrow> bool" where
  "ready listing source_dir target_dir w =
     (list_all (\<lambda>f. is_file w (src_path source_dir f)) (grouped listing)
      \<and> list_all (\<lambda>c. \<not> is_file w (os_path_join target_dir c)) categories
      \<and> list_all (\<lambda>f. list_all (\<lambda>c. \<not> os_path_isdir w
                    (os_path_join (os_path_join target_dir c) f)) categories)
          (grouped listing))"

section \<open>The file-name pattern as the specification words it\<close>

text \<open>
  The specification's pattern \<open><prefix>_<4digits>.jpg_vis_results.jpg\<close> read as the form
  of the whole name: a non-empty prefix, an underscore, four digits and the fixed ending,
  with nothing after it.
\<close>

definition spec_pattern :: "string \<Rightarrow> bool" where
  "spec_pattern f =
     (25 < length f
      \<and> (let t = drop (length f - 25) f
         in take 1 t = ''_'' \<and> list_all isdigit (take 4 (drop 1 t))
            \<and> drop 5 t = ''.jpg_vis_results.jpg''))"

section \<open>The batch driver's loop over the images of one folder\<close>

text \<open>
  The loop \<open>for file in sub_pbar\<close> of \<open>extract_pose_from_imgs\<close>. \<open>process_image\<close> runs
  the pose model and the visualizer of the external library; it is a parameter here,
  given the input path and the output path. \<open>pbar.update(1)\<close> adds one to the count of
  the total progress bar.
\<close>

fun process_files ::
  "(string \<Rightarrow> string \<Rightarrow> world \<Rightarrow> outcome) \<Rightarrow> bool \<Rightarrow> string \<Rightarrow> string
     \<Rightarrow> string list \<Rightarrow> world \<Rightarrow> outcome" where
  "process_files process_image skip_processed sub_data_folder_path output_folder [] w =
     Done w"
| "process_files process_image skip_processed sub_data_folder_path output_folder
     (file # rest) w =
     (let out_path = os_path_join output_folder (file @ ''_vis_results.jpg'') in
      if skip_processed \<and> os_path_exists w out_path then
        process_files process_image skip_processed sub_data_folder_path output_folder rest
          ((print (''Image '' @ file @ '' already processed. Skipping...'') w)
             \<lparr>pbar := pbar w + 1\<rparr>)
      else
        (let file_path = os_path_join sub_data_folder_path file in
         case process_image file_path out_path w of
           Raised e w' \<Rightarrow> Raised e w'
         | Done w' \<Rightarrow>
             process_files process_image skip_processed sub_data_folder_path
               output_folder rest (w'\<lparr>pbar := pbar w' + 1\<rparr>)))"

section \<open>Auxiliary notions for the proofs\<close>

text \<open>All file names held by the groups, in order.\<close>

definition all_names :: "groups \<Rightarrow> string list" where
  "all_names gs = concat (map (\<lambda>g. map snd (snd g)) gs)"

text \<open>The members that the names with first group \<open>p\<close> contribute, in listing order.\<close>

definition members :: "string \<Rightarrow> string list \<Rightarrow> (nat \<times> string) list" where
  "members p files =
     map (\<lambda>f. (int_of_digits (snd (the (re_match f))), f))
       (filter (\<lambda>f. map_option fst (re_match f) = Some p) files)"

text \<open>The invariant of the move loops: the files still to be moved have different names
  without separator, are regular files at their source, have their category folder in
  place and no directory at their destination.\<close>

definition ok_plan ::
  "string \<Rightarrow> string \<Rightarrow> (string \<times> nat) list \<Rightarrow> (string \<rightharpoonup> node) \<Rightarrow> bool" where
  "ok_plan s t pl m =
     (distinct (map fst pl) \<and>
      list_all (\<lambda>x. sep \<notin> set (fst x) \<and> fst x \<notin> set categories \<and> snd x < length categories
                 \<and> (case m (src_path s (fst x)) of Some (File c) \<Rightarrow> True | _ \<Rightarrow> False)
                 \<and> m (os_path_join t (categories ! snd x)) = Some Dir
                 \<and> m (dst_path t (snd x) (fst x)) \<noteq> Some Dir) pl)"

text \<open>A source directory that holds exactly the listed names, each a regular file whose
  content is numbered by its position in the listing, and nothing else anywhere.\<close>

definition flat_world :: "string list \<Rightarrow> string \<Rightarrow> world" where
  "flat_world listing source_dir =
     \<lparr>fs = (\<lambda>p. if p \<in> set (map (os_path_join source_dir) listing)
                 then Some (File (length (takeWhile (\<lambda>f. os_path_join source_dir f \<noteq> p)
                                            listing)))
                 else None),
      out = [], pbar = 0\<rparr>"



section \<open>Paths\<close>

lemma sep_free_not_startswith: "sep \<notin> set f \<Longrightarrow> \<not> startswith f [sep]"
  by (cases f) (auto simp: startswith_def)

lemma endswith_sep_iff: "endswith a [sep] \<longleftrightarrow> a \<noteq> [] \<and> last a = sep"
proof (cases a rule: rev_cases)
  case Nil then show ?thesis by (simp add: endswith_def)
next
  case (snoc ys y) then show ?thesis by (auto simp: endswith_def)
qed

lemma join_sep_free:
  "sep \<notin> set f \<Longrightarrow>
   os_path_join a f = (if a = [] \<or> last a = sep then a @ f else a @ [sep] @ f)"
  by (auto simp: os_path_join_def sep_free_not_startswith endswith_sep_iff)

lemma takeWhile_all: "sep \<notin> set f \<Longrightarrow> takeWhile (\<lambda>c. c \<noteq> sep) (rev f) = rev f"
  by (rule takeWhile_eq_all_conv[THEN iffD2]) auto

lemma basename_append_sep:
  "sep \<notin> set f \<Longrightarrow> os_path_basename (a @ [sep] @ f) = f"
  by (simp add: os_path_basename_def takeWhile_tail takeWhile_all)

lemma basename_sep_free: "sep \<notin> set f \<Longrightarrow> os_path_basename f = f"
  by (simp add: os_path_basename_def takeWhile_all)

lemma basename_join: "sep \<notin> set f \<Longrightarrow> os_path_basename (os_path_join a f) = f"
proof (cases "a = [] \<or> last a = sep")
  case False
  assume "sep \<notin> set f"
  then show ?thesis using False by (simp add: join_sep_free basename_append_sep del: append.simps)
next
  case True
  assume f: "sep \<notin> set f"
  show ?thesis
  proof (cases a rule: rev_cases)
    case Nil then show ?thesis using f by (simp add: join_sep_free basename_sep_free)
  next
    case (snoc ys y)
    with True have "a = ys @ [sep]" by simp
    then show ?thesis using f basename_append_sep[of f ys] by (simp add: join_sep_free)
  qed
qed




lemma dirname_append_sep:
  assumes "sep \<notin> set f" "x \<noteq> []" "last x \<noteq> sep"
  shows "os_path_dirname (x @ [sep] @ f) = x"
proof -
  have 1: "dropWhile (\<lambda>c. c \<noteq> sep) (rev f @ sep # rev x) = sep # rev x"
    using assms(1) by (simp add: dropWhile_append)
  have 2: "hd (rev x) \<noteq> sep" using assms(2,3) by (simp add: hd_rev)
  have 3: "dropWhile (\<lambda>c. c = sep) (rev x) = rev x"
    using 2 assms(2) by (cases "rev x") auto
  have 4: "\<not> list_all (\<lambda>c. c = sep) x"
    using assms(2,3) by (auto simp: list_all_iff)
  show ?thesis using 1 3 4 by (simp add: os_path_dirname_def Let_def)
qed

lemma category_props:
  "c \<in> set categories \<Longrightarrow> sep \<notin> set c \<and> c \<noteq> [] \<and> \<not> endswith c ''.jpg'' \<and> 4 \<le> length c"
  by (auto simp: categories_def sep_def endswith_def)

lemma join_category_shape:
  assumes "c \<in> set categories"
  shows "os_path_join t c \<noteq> [] \<and> last (os_path_join t c) \<noteq> sep"
proof -
  have "last c \<noteq> sep" using category_props[OF assms] last_in_set[of c] by metis
  then show ?thesis using category_props[OF assms] by (auto simp: join_sep_free)
qed

lemma dirname_dst:
  assumes "c \<in> set categories" "sep \<notin> set f"
  shows "os_path_dirname (os_path_join (os_path_join t c) f) = os_path_join t c"
  using join_category_shape[OF assms(1), of t] assms(2)
  by (simp add: join_sep_free[OF assms(2)] dirname_append_sep del: append.simps)



section \<open>Groups\<close>

lemma groups_append_keyset:
  "set (map fst (groups_append k v g)) = insert k (set (map fst g))"
  by (induction k v g rule: groups_append.induct) (simp_all add: insert_commute)

lemma groups_append_keys:
  "distinct (map fst g) \<Longrightarrow> distinct (map fst (groups_append k v g))"
  using groups_append_keyset[of k v] by (induction g) (auto split: if_splits)

lemma groups_append_map_of:
  "map_of (groups_append k v g) =
     (map_of g)(k \<mapsto> (case map_of g k of None \<Rightarrow> [v] | Some vs \<Rightarrow> vs @ [v]))"
  by (induction g) (auto simp: fun_eq_iff split: option.splits)

lemma groups_append_nonempty:
  "list_all (\<lambda>g. snd g \<noteq> []) g \<Longrightarrow> list_all (\<lambda>g. snd g \<noteq> []) (groups_append k v g)"
  by (induction g) auto

lemma group_files_keys:
  "distinct (map fst g) \<Longrightarrow> distinct (map fst (group_files files g))"
  by (induction files arbitrary: g) (auto simp: groups_append_keys split: option.splits)

lemma group_files_nonempty:
  "list_all (\<lambda>g. snd g \<noteq> []) g \<Longrightarrow> list_all (\<lambda>g. snd g \<noteq> []) (group_files files g)"
  by (induction files arbitrary: g) (auto simp: groups_append_nonempty split: option.splits)

lemma members_Nil: "members p [] = []"
  by (simp add: members_def)

lemma members_Cons:
  "members p (f # files) =
     (case re_match f of
        None \<Rightarrow> members p files
      | Some pd \<Rightarrow> (if fst pd = p then (int_of_digits (snd pd), f) # members p files
                   else members p files))"
  by (auto simp: members_def split: option.splits)

lemma group_files_map_of:
  "map_of (group_files files g) p =
     (case map_of g p of
        None \<Rightarrow> (if members p files = [] then None else Some (members p files))
      | Some vs \<Rightarrow> Some (vs @ members p files))"
proof (induction files arbitrary: g)
  case Nil
  then show ?case by (simp add: members_Nil split: option.splits)
next
  case (Cons f files)
  show ?case
  proof (cases "re_match f")
    case None
    then show ?thesis using Cons[of g] by (simp add: members_Cons split: option.splits)
  next
    case (Some pd)
    obtain q d where pd: "pd = (q, d)" by (cases pd)
    show ?thesis using Cons[of "groups_append q (int_of_digits d, f) g"] Some pd
      by (auto simp: members_Cons groups_append_map_of split: option.splits)
  qed
qed

lemma group_files_member:
  "(p, vs) \<in> set (group_files files []) \<longleftrightarrow> vs = members p files \<and> vs \<noteq> []"
proof -
  have d: "distinct (map fst (group_files files []))" by (simp add: group_files_keys)
  have "(p, vs) \<in> set (group_files files []) \<longleftrightarrow> map_of (group_files files []) p = Some vs"
    using d by simp
  then show ?thesis by (auto simp: group_files_map_of)
qed

lemma all_names_append:
  "mset (all_names (groups_append k (n, f) g)) = add_mset f (mset (all_names g))"
  by (induction g) (auto simp: all_names_def)

lemma all_names_group_files:
  "mset (all_names (group_files files g)) =
     mset (all_names g) + mset (filter (\<lambda>f. re_match f \<noteq> None) files)"
  by (induction files arbitrary: g) (auto simp: all_names_append split: option.splits)

lemma all_names_grouped:
  "mset (all_names (group_files (jpg_files listing) [])) = mset (grouped listing)"
proof -
  have "mset (all_names []) = {#}" by (simp add: all_names_def)
  then show ?thesis unfolding grouped_def all_names_group_files by simp
qed

section \<open>Single operations and the frame of the loops\<close>

lemma length_categories: "length categories = 8"
  by (simp add: categories_def)


lemma print_fields: "fs (print l w) = fs w" "out (print l w) = out w @ [l]" "pbar (print l w) = pbar w"
  by (simp_all add: print_def)







lemma shutil_move_file:
  assumes "fs w src = Some (File c)" "os_path_dirname dst \<noteq> []"
    "fs w (os_path_dirname dst) = Some Dir" "fs w dst \<noteq> Some Dir"
  shows "\<exists>w'. shutil_move src dst w = Done w' \<and>
     fs w' = ((fs w)(src := None))(dst \<mapsto> File c) \<and> out w' = out w \<and> pbar w' = pbar w"
proof (cases "src = dst")
  case True
  then have "((fs w)(src := None))(dst \<mapsto> File c) = fs w"
    using assms(1) by (auto simp: fun_eq_iff)
  then show ?thesis using assms True
    by (simp add: shutil_move_def os_rename_def os_path_isdir_def)
next
  case False
  then show ?thesis using assms
    by (simp add: shutil_move_def os_rename_def os_path_isdir_def os_path_exists_def)
qed

lemma zip_upt_Cons:
  "i < n \<Longrightarrow> zip (x # xs) [i..<n] = (x, i) # zip xs [Suc i..<n]"
  by (simp add: upt_conv_Cons)


lemma plan_of_Cons: "plan_of ((pre, files) # gs) = assign files @ plan_of gs"
  by (simp add: plan_of_def)

lemma plan_of_Nil: "plan_of [] = []"
  by (simp add: plan_of_def)


lemma make_category_dirs_Done:
  "\<exists>w'. make_category_dirs t cats w = Done w' \<and> out w' = out w \<and> pbar w' = pbar w \<and>
     fs w' = (\<lambda>p. if p \<in> os_path_join t ` set cats \<and> fs w p = None then Some Dir else fs w p)"
proof (induction cats arbitrary: w)
  case Nil
  then show ?case by simp
next
  case (Cons c cats)
  show ?case
  proof (cases "os_path_exists w (os_path_join t c)")
    case True
    then show ?thesis using Cons[of w] by (auto simp: os_path_exists_def fun_eq_iff)
  next
    case False
    let ?w = "w\<lparr>fs := (fs w)(os_path_join t c \<mapsto> Dir)\<rparr>"
    from Cons[of ?w] False show ?thesis
      by (auto simp: os_path_exists_def os_makedirs_def fun_eq_iff)
  qed
qed

section \<open>Runs in which every move goes through\<close>

lemma src_ne_src: "sep \<notin> set f \<Longrightarrow> sep \<notin> set g \<Longrightarrow> f \<noteq> g \<Longrightarrow> os_path_join a f \<noteq> os_path_join b g"
  using basename_join by metis

lemma category_path_ne:
  assumes "c \<in> set categories" "sep \<notin> set f" "f \<notin> set categories"
  shows "os_path_join t c \<noteq> os_path_join a f"
proof -
  have "sep \<notin> set c" using category_props[OF assms(1)] by simp
  then show ?thesis using src_ne_src[of c f t a] assms by auto
qed

lemma ok_plan_Cons:
  "ok_plan s t ((f, k) # pl) m \<longleftrightarrow>
     f \<notin> fst ` set pl \<and> sep \<notin> set f \<and> f \<notin> set categories \<and> k < length categories
     \<and> (\<exists>c. m (src_path s f) = Some (File c))
     \<and> m (os_path_join t (categories ! k)) = Some Dir
     \<and> m (dst_path t k f) \<noteq> Some Dir \<and> ok_plan s t pl m"
  by (auto simp: ok_plan_def split: option.splits node.splits)

lemma ok_plan_Nil: "ok_plan s t [] m"
  by (simp add: ok_plan_def)

lemma ok_plan_cong:
  assumes "ok_plan s t pl m"
    and "\<And>f k. (f, k) \<in> set pl \<Longrightarrow> m' (src_path s f) = m (src_path s f)"
    and "\<And>f k. (f, k) \<in> set pl \<Longrightarrow> m' (dst_path t k f) = m (dst_path t k f)"
    and "\<And>f k. (f, k) \<in> set pl \<Longrightarrow>
           m' (os_path_join t (categories ! k)) = m (os_path_join t (categories ! k))"
  shows "ok_plan s t pl m'"
  using assms unfolding ok_plan_def list_all_iff by (auto split: prod.splits)

lemma ok_plan_names:
  "ok_plan s t pl m \<Longrightarrow> (f, k) \<in> set pl \<Longrightarrow>
     sep \<notin> set f \<and> f \<notin> set categories \<and> k < length categories"
  unfolding ok_plan_def list_all_iff by auto

lemma ok_plan_step:
  assumes "ok_plan s t ((f, k) # pl) m"
  shows "ok_plan s t pl ((m(src_path s f := None))(dst_path t k f := m (src_path s f)))"
proof -
  from assms have ok: "ok_plan s t pl m" and f: "sep \<notin> set f" "f \<notin> fst ` set pl"
    and k: "k < length categories"
    by (simp_all add: ok_plan_Cons)
  show ?thesis
  proof (rule ok_plan_cong[OF ok])
    fix g j assume gj: "(g, j) \<in> set pl"
    then have g: "sep \<notin> set g" "g \<noteq> f" "g \<notin> set categories" "j < length categories"
      using ok_plan_names[OF ok gj] f by force+
    have 1: "src_path s g \<noteq> src_path s f" "src_path s g \<noteq> dst_path t k f"
      "dst_path t j g \<noteq> src_path s f" "dst_path t j g \<noteq> dst_path t k f"
      using src_ne_src[OF g(1) f(1) g(2)] by auto
    have 2: "os_path_join t (categories ! j) \<noteq> src_path s f"
      "os_path_join t (categories ! j) \<noteq> dst_path t k f"
      using category_path_ne[of "categories ! j" f] g(4) f assms
      by (simp_all add: ok_plan_Cons)
    show "((m(src_path s f := None))(dst_path t k f := m (src_path s f))) (src_path s g)
            = m (src_path s g)" using 1 by simp
    show "((m(src_path s f := None))(dst_path t k f := m (src_path s f))) (dst_path t j g)
            = m (dst_path t j g)" using 1 by simp
    show "((m(src_path s f := None))(dst_path t k f := m (src_path s f)))
            (os_path_join t (categories ! j)) = m (os_path_join t (categories ! j))"
      using 2 by simp
  qed
qed

lemma apply_plan_append:
  "apply_plan s t (a @ b) m = apply_plan s t b (apply_plan s t a m)"
  by (induction a arbitrary: m) auto

lemma ok_plan_append:
  "ok_plan s t (a @ b) m \<Longrightarrow> ok_plan s t a m \<and> ok_plan s t b (apply_plan s t a m)"
proof (induction a arbitrary: m)
  case Nil
  then show ?case by (simp add: ok_plan_Nil)
next
  case (Cons x a)
  obtain f k where x: "x = (f, k)" by (cases x)
  from Cons.prems have step: "ok_plan s t (a @ b)
      ((m(src_path s f := None))(dst_path t k f := m (src_path s f)))"
    using ok_plan_step[of s t f k "a @ b" m] by (simp add: x)
  have "ok_plan s t b (apply_plan s t a
      ((m(src_path s f := None))(dst_path t k f := m (src_path s f))))"
    using Cons.IH[OF step] by blast
  then have b: "ok_plan s t b (apply_plan s t (x # a) m)"
    unfolding x by (simp only: apply_plan.simps)
  have "ok_plan s t (x # a) m" using Cons.prems
    unfolding ok_plan_def by simp
  then show ?case using b by simp
qed

lemma move_files_apply:
  "ok_plan s t (zip (map snd files) [i..<length categories]) (fs w) \<Longrightarrow>
   \<exists>w'. move_files s t pre i files w = Done w' \<and> pbar w' = pbar w \<and>
     fs w' = apply_plan s t (zip (map snd files) [i..<length categories]) (fs w)"
proof (induction files arbitrary: i w)
  case Nil
  then show ?case by simp
next
  case (Cons nf files)
  obtain n f where nf: "nf = (n, f)" by (cases nf)
  show ?case
  proof (cases "i < length categories")
    case False
    then show ?thesis by (simp add: nf print_fields)
  next
    case True
    let ?src = "src_path s f" and ?dst = "dst_path t i f"
    let ?rest = "zip (map snd files) [Suc i..<length categories]"
    have z: "zip (map snd (nf # files)) [i..<length categories] = (f, i) # ?rest"
      using True by (simp add: nf zip_upt_Cons)
    have ok: "ok_plan s t ((f, i) # ?rest) (fs w)" using Cons.prems z by simp
    then obtain c where c: "fs w ?src = Some (File c)" by (auto simp: ok_plan_Cons)
    have f: "sep \<notin> set f" and d: "fs w (os_path_join t (categories ! i)) = Some Dir"
      and nd: "fs w ?dst \<noteq> Some Dir"
      using ok by (simp_all add: ok_plan_Cons)
    have dn: "os_path_dirname ?dst = os_path_join t (categories ! i)"
      using dirname_dst[of "categories ! i" f t] True f by simp
    have "os_path_dirname ?dst \<noteq> []"
      using dn join_category_shape[of "categories ! i" t] True by simp
    then obtain w1 where w1: "shutil_move ?src ?dst w = Done w1"
      "fs w1 = ((fs w)(?src := None))(?dst \<mapsto> File c)" "pbar w1 = pbar w"
      using shutil_move_file[OF c _ _ nd] dn d by auto
    let ?w2 = "print (''Moved '' @ f @ '' to '' @ categories ! i) w1"
    have fs2: "fs ?w2 = ((fs w)(?src := None))(?dst := fs w ?src)"
      using w1(2) c by (simp add: print_fields)
    have "ok_plan s t ?rest (fs ?w2)" using ok_plan_step[OF ok] fs2 by simp
    from Cons.IH[OF this] obtain w' where
      w': "move_files s t pre (Suc i) files ?w2 = Done w'" "pbar w' = pbar ?w2"
      "fs w' = apply_plan s t ?rest (fs ?w2)" by blast
    show ?thesis using w' w1 True z fs2 by (simp add: nf Let_def print_fields)
  qed
qed

lemma process_groups_apply:
  "ok_plan s t (plan_of gs) (fs w) \<Longrightarrow>
   \<exists>w'. process_groups s t gs w = Done w' \<and> pbar w' = pbar w \<and>
     fs w' = apply_plan s t (plan_of gs) (fs w)"
proof (induction gs arbitrary: w)
  case Nil
  then show ?case by (simp add: plan_of_Nil)
next
  case (Cons g gs)
  obtain pre files where g: "g = (pre, files)" by (cases g)
  define w1 where "w1 = (if length (sorted_files files) \<noteq> 8
                then print (''Note: Group '' @ pre @ '' has ''
                             @ str_nat (length (sorted_files files)) @ '' frames'') w
                else w)"
  have w1: "fs w1 = fs w" "pbar w1 = pbar w" by (simp_all add: w1_def print_fields)
  have ok: "ok_plan s t (assign files @ plan_of gs) (fs w1)"
    using Cons.prems w1 by (simp add: g plan_of_Cons)
  from ok_plan_append[OF ok] have a: "ok_plan s t (assign files) (fs w1)"
    and b: "ok_plan s t (plan_of gs) (apply_plan s t (assign files) (fs w1))" by simp_all
  from move_files_apply[of s t "sorted_files files" 0 w1 pre] a
  obtain w2 where w2: "move_files s t pre 0 (sorted_files files) w1 = Done w2"
    "pbar w2 = pbar w1" "fs w2 = apply_plan s t (assign files) (fs w1)"
    by (auto simp: assign_def)
  from Cons.IH[of w2] b w2 obtain w' where
    w': "process_groups s t gs w2 = Done w'" "pbar w' = pbar w2"
    "fs w' = apply_plan s t (plan_of gs) (fs w2)" by auto
  show ?case using w2 w' w1
    by (simp add: g Let_def w1_def[symmetric] plan_of_Cons apply_plan_append)
qed


lemma apply_plan_frame:
  "(\<And>f k. (f, k) \<in> set pl \<Longrightarrow> p \<noteq> src_path s f \<and> p \<noteq> dst_path t k f) \<Longrightarrow>
   apply_plan s t pl m p = m p"
proof (induction pl arbitrary: m)
  case Nil
  then show ?case by simp
next
  case (Cons x pl)
  obtain f k where x: "x = (f, k)" by (cases x)
  have "apply_plan s t pl ((m(src_path s f := None))(dst_path t k f := m (src_path s f))) p
        = ((m(src_path s f := None))(dst_path t k f := m (src_path s f))) p"
    by (rule Cons.IH) (use Cons.prems in auto)
  then show ?case using Cons.prems[of f k] by (simp add: x)
qed

lemma apply_plan_dst:
  assumes "distinct (map fst pl)" "\<And>f k. (f, k) \<in> set pl \<Longrightarrow> sep \<notin> set f"
    "(f, k) \<in> set pl"
  shows "apply_plan s t pl m (dst_path t k f) = m (src_path s f)"
  using assms
proof (induction pl arbitrary: m)
  case Nil
  then show ?case by simp
next
  case (Cons x pl)
  obtain g j where x: "x = (g, j)" by (cases x)
  let ?m = "(m(src_path s g := None))(dst_path t j g := m (src_path s g))"
  have g: "sep \<notin> set g" using Cons.prems(2)[of g j] by (simp add: x)
  show ?case
  proof (cases "(f, k) = (g, j)")
    case True
    have "apply_plan s t pl ?m (dst_path t k f) = ?m (dst_path t k f)"
    proof (rule apply_plan_frame)
      fix f' k' assume in': "(f', k') \<in> set pl"
      then have "f' \<noteq> f" using Cons.prems(1) True by (force simp: x)
      moreover have "sep \<notin> set f'" "sep \<notin> set f"
        using Cons.prems(2)[of f' k'] Cons.prems(2)[of f k] in' Cons.prems(3) by auto
      ultimately show "dst_path t k f \<noteq> src_path s f' \<and> dst_path t k f \<noteq> dst_path t k' f'"
        using src_ne_src by metis
    qed
    then show ?thesis using True by (simp add: x)
  next
    case False
    then have in_pl: "(f, k) \<in> set pl" using Cons.prems(3) by (auto simp: x)
    then have fg: "f \<noteq> g" using Cons.prems(1) by (force simp: x)
    have f: "sep \<notin> set f" using Cons.prems(2)[of f k] in_pl by simp
    have dp: "distinct (map fst pl)" using Cons.prems(1) by simp
    have sp: "\<And>f k. (f, k) \<in> set pl \<Longrightarrow> sep \<notin> set f" using Cons.prems(2) by auto
    have "apply_plan s t pl ?m (dst_path t k f) = ?m (src_path s f)"
      by (rule Cons.IH[OF dp sp in_pl])
    moreover have "src_path s f \<noteq> src_path s g" "src_path s f \<noteq> dst_path t j g"
      using src_ne_src[OF f g fg] by auto
    ultimately show ?thesis by (simp add: x)
  qed
qed

lemma apply_plan_src:
  assumes "distinct (map fst pl)" "\<And>f k. (f, k) \<in> set pl \<Longrightarrow> sep \<notin> set f"
    "(f, k) \<in> set pl" "src_path s f \<noteq> dst_path t k f"
  shows "apply_plan s t pl m (src_path s f) = None"
  using assms(1,2,3)
proof (induction pl arbitrary: m)
  case Nil
  then show ?case by simp
next
  case (Cons x pl)
  obtain g j where x: "x = (g, j)" by (cases x)
  let ?m = "(m(src_path s g := None))(dst_path t j g := m (src_path s g))"
  have g: "sep \<notin> set g" using Cons.prems(2)[of g j] by (simp add: x)
  show ?case
  proof (cases "(f, k) = (g, j)")
    case True
    have "apply_plan s t pl ?m (src_path s f) = ?m (src_path s f)"
    proof (rule apply_plan_frame)
      fix f' k' assume in': "(f', k') \<in> set pl"
      then have "f' \<noteq> f" using Cons.prems(1) True by (force simp: x)
      moreover have "sep \<notin> set f'" "sep \<notin> set f"
        using Cons.prems(2)[of f' k'] Cons.prems(2)[of f k] in' Cons.prems(3) by auto
      ultimately show "src_path s f \<noteq> src_path s f' \<and> src_path s f \<noteq> dst_path t k' f'"
        using src_ne_src by metis
    qed
    then show ?thesis using True assms(4) by (simp add: x)
  next
    case False
    then have in_pl: "(f, k) \<in> set pl" using Cons.prems(3) by (auto simp: x)
    have dp: "distinct (map fst pl)" using Cons.prems(1) by simp
    have sp: "\<And>f k. (f, k) \<in> set pl \<Longrightarrow> sep \<notin> set f" using Cons.prems(2) by auto
    have "apply_plan s t pl ?m (src_path s f) = None"
      by (rule Cons.IH[OF dp sp in_pl])
    then show ?thesis by (simp add: x)
  qed
qed

lemma names_sorted_files: "mset (map snd (sorted_files files)) = mset (map snd files)"
  by (simp add: sorted_files_def)


lemma length_sorted_files: "length (sorted_files files) = length files"
  by (simp add: sorted_files_def)

lemma assign_names:
  "set (map fst (assign files)) \<subseteq> set (map snd files) \<and>
   (distinct (map snd files) \<longrightarrow> distinct (map fst (assign files)))"
proof -
  have m: "map fst (assign files)
      = take (length categories) (map snd (sorted_files files))"
    by (simp add: assign_def map_fst_zip_take min_def)
  have s: "set (map snd (sorted_files files)) = set (map snd files)"
    using names_sorted_files[of files] by (metis set_mset_mset)
  have d: "distinct (map snd files) \<Longrightarrow> distinct (map snd (sorted_files files))"
    using names_sorted_files[of files] by (metis mset_eq_imp_distinct_iff)
  show ?thesis unfolding m using s d set_take_subset[of "length categories"] 
    by (metis distinct_take)
qed

lemma assign_member:
  "(f, k) \<in> set (assign files) \<longleftrightarrow>
     k < length categories \<and> k < length files \<and> f = snd (sorted_files files ! k)"
proof
  assume "(f, k) \<in> set (assign files)"
  then show "k < length categories \<and> k < length files \<and> f = snd (sorted_files files ! k)"
    by (auto simp: assign_def in_set_zip length_sorted_files)
next
  assume a: "k < length categories \<and> k < length files \<and> f = snd (sorted_files files ! k)"
  then have "map snd (sorted_files files) ! k = fst (f, k) \<and> [0..<length categories] ! k = snd (f, k)
      \<and> k < length (map snd (sorted_files files)) \<and> k < length [0..<length categories]"
    by (simp add: length_sorted_files)
  then show "(f, k) \<in> set (assign files)"
    unfolding assign_def in_set_zip by blast
qed

lemma plan_of_names:
  "distinct (all_names gs) \<Longrightarrow>
   distinct (map fst (plan_of gs)) \<and> set (map fst (plan_of gs)) \<subseteq> set (all_names gs)"
proof (induction gs)
  case Nil
  then show ?case by (simp add: plan_of_Nil)
next
  case (Cons g gs)
  obtain pre files where g: "g = (pre, files)" by (cases g)
  have an: "all_names (g # gs) = map snd files @ all_names gs"
    by (simp add: all_names_def g)
  from Cons.prems an have d: "distinct (map snd files)" "distinct (all_names gs)"
    "set (map snd files) \<inter> set (all_names gs) = {}" by simp_all
  have pl: "map fst (plan_of (g # gs)) = map fst (assign files) @ map fst (plan_of gs)"
    by (simp add: g plan_of_Cons)
  have a1: "set (map fst (assign files)) \<subseteq> set (map snd files)"
    using assign_names[of files] by blast
  have a2: "distinct (map fst (assign files))"
    using assign_names[of files] d(1) by blast
  have i1: "distinct (map fst (plan_of gs))"
    and i2: "set (map fst (plan_of gs)) \<subseteq> set (all_names gs)"
    using Cons.IH[OF d(2)] by blast+
  have disj: "set (map fst (assign files)) \<inter> set (map fst (plan_of gs)) = {}"
    using a1 i2 d(3) by blast
  have "distinct (map fst (plan_of (g # gs)))"
    unfolding pl distinct_append using a2 i1 disj by blast
  moreover have "set (map fst (plan_of (g # gs))) \<subseteq> set (all_names (g # gs))"
    unfolding pl an set_append using a1 i2 by blast
  ultimately show ?case by blast
qed

lemma plan_of_member:
  "(f, k) \<in> set (plan_of gs) \<longleftrightarrow> (\<exists>g \<in> set gs. (f, k) \<in> set (assign (snd g)))"
  by (auto simp: plan_of_def)

lemma grouped_subset:
  "f \<in> set (grouped listing) \<longleftrightarrow> f \<in> set listing \<and> endswith f ''.jpg'' \<and> re_match f \<noteq> None"
  by (auto simp: grouped_def jpg_files_def)

lemma plan_names:
  assumes "distinct listing"
  shows "distinct (map fst (plan listing))"
    and "(f, k) \<in> set (plan listing) \<Longrightarrow> f \<in> set (grouped listing) \<and> k < length categories"
proof -
  let ?gs = "group_files (jpg_files listing) []"
  have "distinct (grouped listing)" using assms by (simp add: grouped_def jpg_files_def)
  then have d: "distinct (all_names ?gs)"
    using all_names_grouped[of listing] by (metis mset_eq_imp_distinct_iff)
  have s: "set (all_names ?gs) = set (grouped listing)"
    using all_names_grouped[of listing] by (metis set_mset_mset)
  show "distinct (map fst (plan listing))" using plan_of_names[OF d] by (simp add: plan_def)
  assume "(f, k) \<in> set (plan listing)"
  then have "f \<in> set (map fst (plan_of ?gs))" "k < length categories"
    by (force simp: plan_def, auto simp: plan_def plan_of_member assign_member)
  then show "f \<in> set (grouped listing) \<and> k < length categories"
    using plan_of_names[OF d] s by blast
qed

lemma endswith_jpg_not_category: "endswith f ''.jpg'' \<Longrightarrow> f \<notin> set categories"
  using category_props by blast

section \<open>The batch driver skips what is already there\<close>

lemma process_files_all_skipped:
  "list_all (\<lambda>file. fs w (os_path_join output_folder (file @ ''_vis_results.jpg'')) \<noteq> None)
     files \<Longrightarrow>
   process_files process_image True sub output_folder files w =
     Done (w\<lparr>out := out w @ map (\<lambda>file. ''Image '' @ file @ '' already processed. Skipping...'')
                              files,
             pbar := pbar w + length files\<rparr>)"
proof (induction files arbitrary: w)
  case Nil
  then show ?case by simp
next
  case (Cons f files)
  let ?w = "(print (''Image '' @ f @ '' already processed. Skipping...'') w)
             \<lparr>pbar := pbar w + 1\<rparr>"
  have fs: "fs ?w = fs w" by (simp add: print_def)
  have "list_all (\<lambda>file. fs ?w (os_path_join output_folder (file @ ''_vis_results.jpg''))
           \<noteq> None) files"
    using Cons.prems unfolding fs by simp
  from Cons.IH[OF this] Cons.prems show ?case
    by (simp add: os_path_exists_def print_def del: append.simps)
qed

lemma join_plain:
  "os_path_join ''o'' (c # cs) = (if c = CHR ''/'' then c # cs else ''o/'' @ c # cs)"
  by (simp add: os_path_join_def startswith_def endswith_def sep_def)

text \<open>
  Claim C10. When the skip flag is set and the output file of an image exists, the loop
  does not call \<open>process_image\<close> for it: it prints the skip message, adds one to the
  progress count, leaves the file system as it is and goes on with the remaining images.
\<close>

theorem C10_skip_processed:
  assumes "skip_processed"
    and "os_path_exists w (os_path_join output_folder (file @ ''_vis_results.jpg''))"
  shows "process_files process_image skip_processed sub output_folder (file # rest) w =
         process_files process_image skip_processed sub output_folder rest
           (w\<lparr>out := out w @ [''Image '' @ file @ '' already processed. Skipping...''],
              pbar := pbar w + 1\<rparr>)"
  using assms by (simp add: print_def del: append.simps)

theorem C10_skip_processed_witness:
  "os_path_exists \<lparr>fs = [''o/a.jpg_vis_results.jpg'' \<mapsto> File 1], out = [], pbar = 0\<rparr>
      (os_path_join ''o'' (''a.jpg'' @ ''_vis_results.jpg''))
   \<and> process_files (\<lambda>i p w. Raised FileNotFoundError w) True ''d'' ''o'' [''a.jpg'']
        \<lparr>fs = [''o/a.jpg_vis_results.jpg'' \<mapsto> File 1], out = [], pbar = 0\<rparr>
      = Done \<lparr>fs = [''o/a.jpg_vis_results.jpg'' \<mapsto> File 1],
              out = [''Image a.jpg already processed. Skipping...''], pbar = 1\<rparr>"
proof -
  let ?w = "\<lparr>fs = [''o/a.jpg_vis_results.jpg'' \<mapsto> File 1], out = [], pbar = 0\<rparr>"
  have e: "os_path_exists ?w (os_path_join ''o'' (''a.jpg'' @ ''_vis_results.jpg''))"
    by (simp add: os_path_exists_def join_plain)
  show ?thesis
    using e C10_skip_processed[OF TrueI e, of "\<lambda>i p w. Raised FileNotFoundError w" "''d''" "[]"]
    by simp
qed

section \<open>Whole runs of the sorter\<close>

lemma listdir_result_sep: "listdir_result listing \<Longrightarrow> f \<in> set listing \<Longrightarrow> sep \<notin> set f"
  by (simp add: listdir_result_def list_all_iff)

lemma plan_facts:
  assumes "listdir_result listing" "(f, k) \<in> set (plan listing)"
  shows "f \<in> set listing" "sep \<notin> set f" "endswith f ''.jpg''" "re_match f \<noteq> None"
    "f \<notin> set categories" "k < length categories" "f \<in> set (grouped listing)"
proof -
  have d: "distinct listing" using assms(1) by (simp add: listdir_result_def)
  from plan_names(2)[OF d assms(2)] show g: "f \<in> set (grouped listing)"
    and "k < length categories" by simp_all
  from g show "f \<in> set listing" "endswith f ''.jpg''" "re_match f \<noteq> None"
    by (simp_all add: grouped_subset)
  then show "sep \<notin> set f" "f \<notin> set categories"
    using listdir_result_sep[OF assms(1)] endswith_jpg_not_category by blast+
qed

lemma ready_ok_plan:
  assumes l: "listdir_result listing" and r: "ready listing s t w"
    and m: "m = (\<lambda>p. if p \<in> os_path_join t ` set categories \<and> fs w p = None
                      then Some Dir else fs w p)"
  shows "ok_plan s t (plan listing) m"
proof -
  have d: "distinct listing" using l by (simp add: listdir_result_def)
  have "list_all (\<lambda>x. sep \<notin> set (fst x) \<and> fst x \<notin> set categories \<and> snd x < length categories
                 \<and> (case m (src_path s (fst x)) of Some (File c) \<Rightarrow> True | _ \<Rightarrow> False)
                 \<and> m (os_path_join t (categories ! snd x)) = Some Dir
                 \<and> m (dst_path t (snd x) (fst x)) \<noteq> Some Dir) (plan listing)"
    unfolding list_all_iff
  proof
    fix x assume x: "x \<in> set (plan listing)"
    obtain f k where fk: "x = (f, k)" by (cases x)
    note pf = plan_facts[OF l x[unfolded fk]]
    have c: "categories ! k \<in> set categories" using pf(6) by simp
    have isf: "is_file w (src_path s f)"
      using r pf(7) by (simp add: ready_def list_all_iff)
    then have src: "case m (src_path s f) of Some (File c) \<Rightarrow> True | _ \<Rightarrow> False"
      by (auto simp: m is_file_def split: option.splits node.splits)
    have "\<not> is_file w (os_path_join t (categories ! k))"
      using r c by (simp add: ready_def list_all_iff)
    then have cat: "m (os_path_join t (categories ! k)) = Some Dir"
      using c by (auto simp: m is_file_def split: option.splits node.splits)
    have nd: "fs w (dst_path t k f) \<noteq> Some Dir"
      using r pf(7) c by (simp add: ready_def list_all_iff os_path_isdir_def)
    have "\<forall>c \<in> set categories. os_path_join t c \<noteq> dst_path t k f"
      using category_path_ne[OF _ pf(2) pf(5)] by blast
    then have "dst_path t k f \<notin> os_path_join t ` set categories"
      by (auto simp: image_iff)
    then have dst: "m (dst_path t k f) \<noteq> Some Dir" using nd by (simp add: m)
    show "sep \<notin> set (fst x) \<and> fst x \<notin> set categories \<and> snd x < length categories
                 \<and> (case m (src_path s (fst x)) of Some (File c) \<Rightarrow> True | _ \<Rightarrow> False)
                 \<and> m (os_path_join t (categories ! snd x)) = Some Dir
                 \<and> m (dst_path t (snd x) (fst x)) \<noteq> Some Dir"
      using pf(2,5,6) src cat dst by (simp add: fk)
  qed
  then show ?thesis using plan_names(1)[OF d] by (simp add: ok_plan_def)
qed

lemma run_ready:
  assumes l: "listdir_result listing" and r: "ready listing s t w"
  shows "\<exists>w'. sort_golf_swing_images listing s t w = Done w' \<and> pbar w' = pbar w \<and>
     fs w' = apply_plan s t (plan listing)
       (\<lambda>p. if p \<in> os_path_join t ` set categories \<and> fs w p = None then Some Dir else fs w p)"
proof -
  let ?m = "\<lambda>p. if p \<in> os_path_join t ` set categories \<and> fs w p = None
                 then Some Dir else fs w p"
  obtain w1 where w1: "make_category_dirs t categories w = Done w1" "pbar w1 = pbar w"
    "fs w1 = ?m" using make_category_dirs_Done[of t categories w] by blast
  have "ok_plan s t (plan_of (group_files (jpg_files listing) [])) (fs w1)"
    using ready_ok_plan[OF l r refl] w1(3) by (simp add: plan_def)
  from process_groups_apply[OF this] obtain w' where
    "process_groups s t (group_files (jpg_files listing) []) w1 = Done w'"
    "pbar w' = pbar w1"
    "fs w' = apply_plan s t (plan_of (group_files (jpg_files listing) [])) (fs w1)" by blast
  then show ?thesis using w1 by (simp add: sort_golf_swing_images_def plan_def)
qed

lemma run_moved:
  assumes l: "listdir_result listing" and r: "ready listing s t w"
    and x: "(f, k) \<in> set (plan listing)"
  shows "\<exists>w'. sort_golf_swing_images listing s t w = Done w' \<and>
     fs w' (dst_path t k f) = fs w (src_path s f) \<and> is_file w (src_path s f) \<and>
     (src_path s f \<noteq> dst_path t k f \<longrightarrow> fs w' (src_path s f) = None)"
proof -
  let ?m = "\<lambda>p. if p \<in> os_path_join t ` set categories \<and> fs w p = None
                 then Some Dir else fs w p"
  obtain w' where w': "sort_golf_swing_images listing s t w = Done w'"
    "fs w' = apply_plan s t (plan listing) ?m" using run_ready[OF l r] by blast
  have d: "distinct (map fst (plan listing))"
    using plan_names(1) l by (simp add: listdir_result_def)
  have sp: "\<And>f k. (f, k) \<in> set (plan listing) \<Longrightarrow> sep \<notin> set f"
    using plan_facts(2)[OF l] by blast
  have isf: "is_file w (src_path s f)"
    using r plan_facts(7)[OF l x] by (simp add: ready_def list_all_iff)
  then have m: "?m (src_path s f) = fs w (src_path s f)"
    by (auto simp: is_file_def split: option.splits)
  have 1: "fs w' (dst_path t k f) = fs w (src_path s f)"
    using apply_plan_dst[OF d sp x, where s=s and t=t and m="?m"] m w'(2) by simp
  have 2: "src_path s f \<noteq> dst_path t k f \<Longrightarrow> fs w' (src_path s f) = None"
    using apply_plan_src[OF d sp x, where s=s and t=t and m="?m"] w'(2) by simp
  show ?thesis using w'(1) 1 2 isf by blast
qed


section \<open>What a run prints\<close>







section \<open>Names ending in .jpg, and worlds in which a run goes through\<close>











lemma readyI:
  assumes "\<And>f. f \<in> set (grouped listing) \<Longrightarrow> is_file w (src_path s f)"
    and "\<And>c. c \<in> set categories \<Longrightarrow> \<not> is_file w (os_path_join t c)"
    and "\<And>f c. f \<in> set (grouped listing) \<Longrightarrow> c \<in> set categories \<Longrightarrow>
           fs w (os_path_join (os_path_join t c) f) \<noteq> Some Dir"
  shows "ready listing s t w"
  using assms by (simp add: ready_def list_all_iff os_path_isdir_def)

lemma flat_world_fs:
  "fs (flat_world listing s) p \<noteq> Some Dir"
  "f \<in> set listing \<Longrightarrow> is_file (flat_world listing s) (src_path s f)"
  "p \<notin> os_path_join s ` set listing \<Longrightarrow> fs (flat_world listing s) p = None"
  by (auto simp: flat_world_def is_file_def)

lemma ready_flat:
  assumes "listdir_result listing" "set listing \<inter> set categories = {}"
  shows "ready listing s t (flat_world listing s)"
proof (rule readyI)
  fix f assume "f \<in> set (grouped listing)"
  then show "is_file (flat_world listing s) (src_path s f)"
    by (simp add: grouped_subset flat_world_fs(2))
next
  fix c assume c: "c \<in> set categories"
  have "os_path_join t c \<notin> os_path_join s ` set listing"
  proof
    assume "os_path_join t c \<in> os_path_join s ` set listing"
    then obtain f where f: "f \<in> set listing" "os_path_join t c = os_path_join s f" by blast
    then have "sep \<notin> set f" "f \<notin> set categories"
      using listdir_result_sep[OF assms(1)] assms(2) by blast+
    then show False using category_path_ne[OF c, of f t s] f(2) by simp
  qed
  then show "\<not> is_file (flat_world listing s) (os_path_join t c)"
    by (simp add: is_file_def flat_world_fs(3))
next
  fix f c
  show "fs (flat_world listing s) (os_path_join (os_path_join t c) f) \<noteq> Some Dir"
    by (rule flat_world_fs(1))
qed


section \<open>The category folders, and a directory with nothing to sort\<close>







section \<open>Members of a group and their places in the plan\<close>

lemma members_set:
  "(n, f) \<in> set (members p files) \<longleftrightarrow>
     f \<in> set files \<and> (\<exists>d. re_match f = Some (p, d) \<and> n = int_of_digits d)"
  by (force simp: members_def image_iff)







lemma plan_member_prefix:
  assumes "re_match f = Some (p, d)"
  shows "(f, k) \<in> set (plan listing) \<longleftrightarrow> (f, k) \<in> set (assign (members p (jpg_files listing)))"
proof
  assume "(f, k) \<in> set (plan listing)"
  then obtain q vs where g: "(q, vs) \<in> set (group_files (jpg_files listing) [])"
    and a: "(f, k) \<in> set (assign vs)"
    by (auto simp: plan_def plan_of_member)
  have vs: "vs = members q (jpg_files listing)" using g by (simp add: group_files_member)
  have "f \<in> set (map snd vs)" using a assign_names[of vs] by force
  then obtain n where "(n, f) \<in> set (members q (jpg_files listing))" using vs by auto
  then have "q = p" using assms by (auto simp: members_set)
  then show "(f, k) \<in> set (assign (members p (jpg_files listing)))" using a vs by simp
next
  assume a: "(f, k) \<in> set (assign (members p (jpg_files listing)))"
  then have "members p (jpg_files listing) \<noteq> []" by (auto simp: assign_member)
  then have "(p, members p (jpg_files listing)) \<in> set (group_files (jpg_files listing) [])"
    by (simp add: group_files_member)
  then show "(f, k) \<in> set (plan listing)" using a by (force simp: plan_def plan_of_member)
qed




section \<open>A name that goes on after the pattern\<close>

lemma join_o: "sep \<notin> set g \<Longrightarrow> os_path_join ''o'' g = ''o/'' @ g"
  by (simp add: join_sep_free sep_def)

lemma join_o_category:
  "sep \<notin> set g \<Longrightarrow> dst_path ''o'' 0 g = ''o/0.Address/'' @ g"
proof -
  assume g: "sep \<notin> set g"
  have "os_path_join ''o'' (categories ! 0) = ''o/0.Address''"
    by (simp add: categories_def os_path_join_def startswith_def endswith_def sep_def)
  then show ?thesis using join_sep_free[OF g, of "''o/0.Address''"] by (simp add: sep_def)
qed

lemma single_run:
  assumes m: "re_match g = Some (p, d)" and e: "endswith g ''.jpg''" and sp: "sep \<notin> set g"
  shows "\<exists>w'. sort_golf_swing_images [g] ''o'' ''o'' (flat_world [g] ''o'') = Done w'
     \<and> fs w' (''o/0.Address/'' @ g) = Some (File 0) \<and> fs w' (''o/'' @ g) = None"
proof -
  have l: "listdir_result [g]" using sp by (simp add: listdir_result_def)
  have "g \<notin> set categories" using e by (rule endswith_jpg_not_category)
  then have r: "ready [g] ''o'' ''o'' (flat_world [g] ''o'')"
    using ready_flat[OF l] by simp
  have "members p (jpg_files [g]) = [(int_of_digits d, g)]"
    using m e by (simp add: members_def jpg_files_def)
  then have "(g, 0) \<in> set (assign (members p (jpg_files [g])))"
    by (simp add: assign_member sorted_files_def length_categories)
  then have x: "(g, 0) \<in> set (plan [g])" using plan_member_prefix[OF m] by blast
  have ne: "src_path ''o'' g \<noteq> dst_path ''o'' 0 g"
    using sp by (simp add: join_o join_o_category)
  have "fs (flat_world [g] ''o'') (src_path ''o'' g) = Some (File 0)"
    by (simp add: flat_world_def)
  then show ?thesis using run_moved[OF l r x] ne sp by (auto simp: join_o join_o_category)
qed

lemmas match_eval = re_match_def match_tail_def startswith_def newline_def isdigit_def

lemma longer_name_facts:
  "re_match ''a_0001.jpg_vis_results.jpg.copy.jpg'' = Some (''a'', ''0001'')"
  "endswith ''a_0001.jpg_vis_results.jpg.copy.jpg'' ''.jpg''"
  "sep \<notin> set ''a_0001.jpg_vis_results.jpg.copy.jpg''"
  "\<not> spec_pattern ''a_0001.jpg_vis_results.jpg.copy.jpg''"
  "spec_pattern ''a_0001.jpg_vis_results.jpg''"
  by (simp_all add: match_eval endswith_def sep_def spec_pattern_def)

text \<open>
  Claim C3. There is a name ending in \<open>.jpg\<close> that continues after a name of the
  specification's form (here with \<open>.copy.jpg\<close>), so that it is not of that form itself,
  which \<open>re.match\<close> nevertheless matches with the prefix and frame number of its initial
  segment, and which the sorter moves out of the source directory into a category folder.
\<close>

theorem C3_longer_name_is_moved:
  "\<exists>f base extra w'.
     f = base @ extra \<and> extra \<noteq> [] \<and> spec_pattern base \<and> \<not> spec_pattern f
     \<and> endswith f ''.jpg'' \<and> re_match f = re_match base \<and> re_match f = Some (''a'', ''0001'')
     \<and> sort_golf_swing_images [f] ''o'' ''o'' (flat_world [f] ''o'') = Done w'
     \<and> fs (flat_world [f] ''o'') (''o/'' @ f) = Some (File 0)
     \<and> fs w' (''o/0.Address/'' @ f) = Some (File 0) \<and> fs w' (''o/'' @ f) = None"
proof -
  let ?f = "''a_0001.jpg_vis_results.jpg.copy.jpg''"
  have b: "re_match ''a_0001.jpg_vis_results.jpg'' = Some (''a'', ''0001'')"
    by (simp add: match_eval)
  obtain w' where w': "sort_golf_swing_images [?f] ''o'' ''o'' (flat_world [?f] ''o'') = Done w'"
    "fs w' (''o/0.Address/'' @ ?f) = Some (File 0)" "fs w' (''o/'' @ ?f) = None"
    using single_run[OF longer_name_facts(1,2,3)] by blast
  have 0: "fs (flat_world [?f] ''o'') (''o/'' @ ?f) = Some (File 0)"
    using join_o[OF longer_name_facts(3)] by (simp add: flat_world_def)
  have split: "?f = ''a_0001.jpg_vis_results.jpg'' @ ''.copy.jpg''" by simp
  have "?f = ''a_0001.jpg_vis_results.jpg'' @ ''.copy.jpg'' \<and> ''.copy.jpg'' \<noteq> []
     \<and> spec_pattern ''a_0001.jpg_vis_results.jpg'' \<and> \<not> spec_pattern ?f
     \<and> endswith ?f ''.jpg'' \<and> re_match ?f = re_match ''a_0001.jpg_vis_results.jpg''
     \<and> re_match ?f = Some (''a'', ''0001'')
     \<and> sort_golf_swing_images [?f] ''o'' ''o'' (flat_world [?f] ''o'') = Done w'
     \<and> fs (flat_world [?f] ''o'') (''o/'' @ ?f) = Some (File 0)
     \<and> fs w' (''o/0.Address/'' @ ?f) = Some (File 0) \<and> fs w' (''o/'' @ ?f) = None"
    using split longer_name_facts b w' 0 by (simp only: simp_thms list.simps)
  then show ?thesis by (intro exI)
qed

section \<open>Names that the pattern does not match\<close>






section \<open>A full group\<close>






section \<open>Example directories\<close>
















section \<open>More about whole runs\<close>









section \<open>Groups of more or fewer than eight\<close>









section \<open>Two prefixes in one directory\<close>


















section \<open>What a run keeps and what it replaces\<close>







end
